theory Spec2Isabelle
  imports Main "HOL-Library.Word"
begin

chapter \<open>The program\<close>

section \<open>Buffers and machine integers\<close>

text \<open>
  The harness of \<^verbatim>\<open>src/main.cpp\<close> works on \<^verbatim>\<open>std::vector<std::byte>\<close> buffers that it
  indexes with \<^verbatim>\<open>size_t\<close> values. A buffer is a list of bytes, an index a 64-bit word
  whose arithmetic wraps as the unsigned arithmetic of C++ does. Reading or writing
  a vector element outside the buffer is undefined behaviour in the source; the
  model makes it the value \<open>None\<close>.
\<close>

type_synonym byte = "8 word"
type_synonym size_t = "64 word"
type_synonym int32_t = "32 word"

definition read_at :: "'a list \<Rightarrow> size_t \<Rightarrow> 'a option" where
  "read_at xs i = (if unat i < length xs then Some (xs ! unat i) else None)"

definition write_at :: "'a list \<Rightarrow> size_t \<Rightarrow> 'a \<Rightarrow> 'a list option" where
  "write_at xs i v = (if unat i < length xs then Some (xs[unat i := v]) else None)"

text \<open>The assignment \<^verbatim>\<open>dst[d] = src[s]\<close>.\<close>

definition copy_sample :: "'a list \<Rightarrow> size_t \<Rightarrow> 'a list \<Rightarrow> size_t \<Rightarrow> 'a list option" where
  "copy_sample dst d src s =
     (case read_at src s of None \<Rightarrow> None | Some v \<Rightarrow> write_at dst d v)"

text \<open>
  \<^verbatim>\<open>reinterpret_cast<uint16_t*>(buffer.data())\<close> views the bytes of a buffer as 2-byte
  units. A unit is kept as the pair of its bytes in memory order, which is what an
  assignment between two \<^verbatim>\<open>uint16_t\<close> objects copies whatever the byte order of the
  platform. A last odd byte belongs to no unit.
\<close>

type_synonym uint16_t = "byte \<times> byte"

fun as_uint16 :: "byte list \<Rightarrow> uint16_t list" where
  "as_uint16 (a # b # xs) = (a, b) # as_uint16 xs"
| "as_uint16 xs = []"

fun as_bytes :: "uint16_t list \<Rightarrow> byte list" where
  "as_bytes [] = []"
| "as_bytes ((a, b) # ws) = a # b # as_bytes ws"

section \<open>Layout transform: \<^verbatim>\<open>triplet_to_planar\<close>\<close>

text \<open>
  The two loops of \<^verbatim>\<open>triplet_to_planar\<close> have the same body, one on \<^verbatim>\<open>uint16_t\<close>
  elements and one on bytes; \<open>planar_loop\<close> is that loop on elements of any type.
  The index \<open>i\<close> runs while \<^verbatim>\<open>i != samples_per_plane\<close>, with \<^verbatim>\<open>++i\<close> wrapping.
\<close>

function planar_loop :: "size_t \<Rightarrow> size_t \<Rightarrow> 'a list \<Rightarrow> 'a list \<Rightarrow> 'a list option" where
  "planar_loop i samples_per_plane source work =
     (if i \<noteq> samples_per_plane then
        (case copy_sample work i source (i * 3 + 0) of
           None \<Rightarrow> None
         | Some work0 \<Rightarrow>
        (case copy_sample work0 (i + 1 * samples_per_plane) source (i * 3 + 1) of
           None \<Rightarrow> None
         | Some work1 \<Rightarrow>
        (case copy_sample work1 (i + 2 * samples_per_plane) source (i * 3 + 2) of
           None \<Rightarrow> None
         | Some work2 \<Rightarrow> planar_loop (i + 1) samples_per_plane source work2)))
      else Some work)"
  by pat_completeness auto
termination
proof (relation "measure (\<lambda>(i, samples_per_plane, source, work). unat (samples_per_plane - i))")
  show "wf (measure (\<lambda>(i, samples_per_plane, source, work). unat (samples_per_plane - i)))"
    by simp
next
  fix i samples_per_plane :: size_t
  fix source work work0 work1 work2 :: "'a list"
  assume "i \<noteq> samples_per_plane"
  then have "samples_per_plane - i \<noteq> 0"
    by simp
  then have "unat (samples_per_plane - i - 1) < unat (samples_per_plane - i)"
    by (simp add: unat_minus_one unat_gt_0)
  moreover have "samples_per_plane - (i + 1) = samples_per_plane - i - 1"
    by simp
  ultimately have "unat (samples_per_plane - (i + 1)) < unat (samples_per_plane - i)"
    by (simp only:)
  then show "((i + 1, samples_per_plane, source, work2), (i, samples_per_plane, source, work))
      \<in> measure (\<lambda>(i, samples_per_plane, source, work). unat (samples_per_plane - i))"
    by simp
qed

declare planar_loop.simps [simp del]

text \<open>
  \<^verbatim>\<open>triplet_to_planar\<close> fills a zero-initialised work buffer of the size of the buffer
  and swaps it with the buffer: the result is the new content of \<^verbatim>\<open>buffer\<close>. In the
  16-bit branch the loop writes through the 2-byte view of the work buffer, so a
  last odd byte of the work buffer keeps its initial value.
\<close>

definition triplet_to_planar :: "byte list \<Rightarrow> size_t \<Rightarrow> size_t \<Rightarrow> int32_t \<Rightarrow> byte list option" where
  "triplet_to_planar buffer width height bits_per_sample =
     (let work_buffer = replicate (length buffer) (0 :: byte);
          samples_per_plane = width * height
      in if 8 <s bits_per_sample then
           (case planar_loop 0 samples_per_plane (as_uint16 buffer) (as_uint16 work_buffer) of
              None \<Rightarrow> None
            | Some buffer16 \<Rightarrow> Some (as_bytes buffer16 @ drop (2 * length buffer16) work_buffer))
         else planar_loop 0 samples_per_plane buffer work_buffer)"

text \<open>
  The source has no inverse of \<^verbatim>\<open>triplet_to_planar\<close>. The regrouping of a planar
  buffer back into triplets, which the round-trip property of the layout transform
  speaks of, is defined here for that property only: sample \<open>i\<close> of each of the
  three planes of \<open>n\<close> samples, in plane order, for \<open>i\<close> from \<open>0\<close> to \<open>n - 1\<close>, in
  the sample unit (one byte or two) that \<^verbatim>\<open>triplet_to_planar\<close> uses for the bit depth.
\<close>

definition regroup_samples :: "nat \<Rightarrow> 'a list \<Rightarrow> 'a list" where
  "regroup_samples n planar =
     concat (map (\<lambda>i. [planar ! i, planar ! (i + n), planar ! (i + 2 * n)]) [0..<n])"

definition planar_to_triplet :: "byte list \<Rightarrow> size_t \<Rightarrow> size_t \<Rightarrow> int32_t \<Rightarrow> byte list" where
  "planar_to_triplet planar w h bps =
     (let samples_per_plane = unat (w * h)
      in if 8 <s bps then as_bytes (regroup_samples samples_per_plane (as_uint16 planar))
         else regroup_samples samples_per_plane planar)"

section \<open>The world outside the harness\<close>

text \<open>
  What stops a run: undefined behaviour (an access outside a buffer), a failed
  \<^verbatim>\<open>assert\<close>, or a C++ exception carrying its \<^verbatim>\<open>what()\<close> text. Only the exception
  is caught by the handler of \<^verbatim>\<open>main\<close>.
\<close>

datatype fault = Undefined_behaviour | Assertion_failed | Exception string

text \<open>
  \<^verbatim>\<open>charls::interleave_mode\<close> is a scoped enumeration of the codec library, with
  underlying type \<^verbatim>\<open>int\<close> and the enumerators \<^verbatim>\<open>none = 0\<close>, \<^verbatim>\<open>line = 1\<close>,
  \<^verbatim>\<open>sample = 2\<close>. An object of the type can hold any value of the underlying type,
  which is why \<^verbatim>\<open>interleave_mode_to_string\<close> has code after its switch.
\<close>

type_synonym interleave_mode = int32_t

definition none :: interleave_mode where "none = 0"
definition line :: interleave_mode where "line = 1"
definition sample :: interleave_mode where "sample = 2"

text \<open>\<^verbatim>\<open>charls::frame_info\<close>: width, height, bits per sample, component count.\<close>

datatype frame_info = Frame_info "32 word" "32 word" int32_t int32_t

text \<open>
  Modelled from the spec: the module \<^verbatim>\<open>portable_anymap_file\<close> is not among the
  sources. The specification describes the loaded image as width, height, bits per
  sample, component count and a flat sample-interleaved byte buffer; the harness
  uses the constructor from a file name and the five accessors. The object is the
  record of what the accessors return; the constructor is a parameter of the model
  (\<open>anymap_file\<close> below). Width and height initialise the unsigned 32-bit fields of
  \<^verbatim>\<open>frame_info\<close> in a braced list, bits per sample and component count its signed
  32-bit fields.
\<close>

record portable_anymap_file =
  width :: "32 word"
  height :: "32 word"
  bits_per_sample :: int32_t
  component_count :: int32_t
  image_data :: "byte list"

text \<open>
  Every interaction with the outside is an event of the run, in the order of the
  source. \<open>Info_line\<close> is the line of metrics that \<^verbatim>\<open>check_file\<close> prints: it keeps the
  original size, the encoded size, the mode label and its field width; the
  compression ratio (a \<^verbatim>\<open>double\<close>) and the two wall-clock durations are left out.
\<close>

datatype event =
    Puts string
  | Info_line size_t size_t string nat
  | Directory_scan string
  | Anymap_read string
  | Encoder_call frame_info interleave_mode "byte list"
  | File_write string "byte list"
  | Decoder_call "byte list"

text \<open>
  The collaborators are parameters of the model.
  \<^item> \<open>directory_entries\<close>: the paths that \<^verbatim>\<open>recursive_directory_iterator\<close> yields, in
    its order, or the exception it throws.
  \<^item> \<open>anymap_file\<close>: the constructor \<^verbatim>\<open>portable_anymap_file(filename)\<close>.
  \<^item> \<open>encode\<close>: a \<^verbatim>\<open>jpegls_encoder\<close> configured with the frame info and the interleave
    mode, given a destination of its estimated size, encoding the source buffer:
    the destination after encoding and the size \<^verbatim>\<open>encode\<close> returns.
  \<^item> \<open>decode\<close>: a \<^verbatim>\<open>jpegls_decoder\<close> on the encoded bytes: the decoded buffer, of size
    \<^verbatim>\<open>destination_size()\<close>, and \<^verbatim>\<open>near_lossless()\<close>.
  \<^item> \<open>write_file\<close>: opening an \<^verbatim>\<open>ofstream\<close> with \<^verbatim>\<open>binary | trunc\<close>, enabling its
    exceptions and writing the bytes: \<open>None\<close> when all of it succeeds (the file then
    holds exactly these bytes), the exception otherwise.
\<close>

record environment =
  directory_entries :: "string \<Rightarrow> fault + string list"
  anymap_file :: "string \<Rightarrow> fault + portable_anymap_file"
  encode :: "frame_info \<Rightarrow> interleave_mode \<Rightarrow> byte list \<Rightarrow> fault + (byte list \<times> size_t)"
  decode :: "byte list \<Rightarrow> fault + (byte list \<times> int32_t)"
  write_file :: "string \<Rightarrow> byte list \<Rightarrow> fault option"

text \<open>
  A step of the harness yields its result, or the fault that ended it, and the
  events it produced. \<open>then_do\<close> sequences two steps: a fault skips everything
  after it, as a thrown exception does.
\<close>

type_synonym 'a run = "(fault + 'a) \<times> event list"

definition done_with :: "'a \<Rightarrow> 'a run" where
  "done_with x = (Inr x, [])"

definition emit :: "event \<Rightarrow> unit run" where
  "emit e = (Inr (), [e])"

definition call :: "event \<Rightarrow> fault + 'a \<Rightarrow> 'a run" where
  "call e r = (r, [e])"

definition then_do :: "'a run \<Rightarrow> ('a \<Rightarrow> 'b run) \<Rightarrow> 'b run" where
  "then_do m f =
     (case m of
        (Inl e, es) \<Rightarrow> (Inl e, es)
      | (Inr x, es) \<Rightarrow> (case f x of (r, es') \<Rightarrow> (r, es @ es')))"

text \<open>\<^verbatim>\<open>vector::size()\<close> and \<^verbatim>\<open>vector::resize(n)\<close> (new elements are zero bytes).\<close>

definition vector_size :: "'a list \<Rightarrow> size_t" where
  "vector_size xs = of_nat (length xs)"

definition resize :: "byte list \<Rightarrow> size_t \<Rightarrow> byte list" where
  "resize xs n = take (unat n) xs @ replicate (unat n - length xs) 0"

section \<open>Reference loader: \<^verbatim>\<open>read_anymap_reference_file\<close>\<close>

definition read_anymap_reference_file :: "environment \<Rightarrow> string \<Rightarrow> interleave_mode \<Rightarrow> portable_anymap_file run" where
  "read_anymap_reference_file env filename interleave_mode =
     then_do (call (Anymap_read filename) (anymap_file env filename)) (\<lambda>reference_file.
       if interleave_mode = none \<and> component_count reference_file = 3 then
         (case triplet_to_planar (image_data reference_file)
                 (ucast (width reference_file)) (ucast (height reference_file))
                 (bits_per_sample reference_file) of
            None \<Rightarrow> (Inl Undefined_behaviour, [])
          | Some planar \<Rightarrow> done_with (reference_file\<lparr>image_data := planar\<rparr>))
       else done_with reference_file)"

section \<open>Round-trip validator: \<^verbatim>\<open>test_by_decoding\<close>\<close>

text \<open>The loop comparing the decoded bytes with the bytes of \<^verbatim>\<open>original_source\<close>.\<close>

function compare_loop :: "size_t \<Rightarrow> byte list \<Rightarrow> byte list \<Rightarrow> bool run" where
  "compare_loop i decoded original_source =
     (if i < vector_size original_source then
        (case (read_at decoded i, read_at original_source i) of
           (Some d, Some s) \<Rightarrow>
             if d \<noteq> s then
               then_do (emit (Puts ''Pixel data value doesn't match'')) (\<lambda>_. done_with False)
             else compare_loop (i + 1) decoded original_source
         | _ \<Rightarrow> (Inl Undefined_behaviour, []))
      else done_with True)"
  by pat_completeness auto
termination
proof (relation "measure (\<lambda>(i, decoded, original_source). unat (vector_size original_source - i))")
  show "wf (measure (\<lambda>(i, decoded, original_source). unat (vector_size original_source - i)))"
    by simp
next
  fix i :: size_t
  fix decoded original_source :: "byte list"
  assume "i < vector_size original_source"
  then have "vector_size original_source - i \<noteq> 0"
    by auto
  then have "unat (vector_size original_source - i - 1) < unat (vector_size original_source - i)"
    by (simp add: unat_minus_one unat_gt_0)
  moreover have "vector_size original_source - (i + 1) = vector_size original_source - i - 1"
    by simp
  ultimately have "unat (vector_size original_source - (i + 1)) < unat (vector_size original_source - i)"
    by (simp only:)
  then show "((i + 1, decoded, original_source), (i, decoded, original_source))
      \<in> measure (\<lambda>(i, decoded, original_source). unat (vector_size original_source - i))"
    by simp
qed

declare compare_loop.simps [simp del]

definition test_by_decoding :: "environment \<Rightarrow> byte list \<Rightarrow> byte list \<Rightarrow> bool run" where
  "test_by_decoding env encoded_source original_source =
     then_do (call (Decoder_call encoded_source) (decode env encoded_source)) (\<lambda>(decoded, near_lossless).
       if vector_size decoded \<noteq> vector_size original_source then
         then_do (emit (Puts ''Pixel data size doesn't match'')) (\<lambda>_. done_with False)
       else if near_lossless = 0 then compare_loop 0 decoded original_source
       else done_with True)"

section \<open>Output file names\<close>

definition interleave_mode_to_string :: "interleave_mode \<Rightarrow> fault + string" where
  "interleave_mode_to_string interleave_mode =
     (if interleave_mode = none then Inr ''none''
      else if interleave_mode = line then Inr ''line''
      else if interleave_mode = sample then Inr ''sample''
      else Inl Assertion_failed)"

text \<open>
  The last branch is \<^verbatim>\<open>assert(false); return "";\<close>: a build with assertions stops
  there, a build without them returns the empty string.

  \<^verbatim>\<open>std::filesystem::path\<close> belongs to the C++ standard library. Its operations are
  modelled on path names in the generic format with the separator \<open>/\<close>, after the
  C++ standard (fs.path.decompose, fs.path.modifiers, fs.path.append):
  \<^item> \<^verbatim>\<open>filename()\<close> is what follows the last separator;
  \<^item> \<^verbatim>\<open>stem()\<close> is the filename itself if it is \<open>.\<close> or \<open>..\<close> or has no period other
    than a leading one, and else the filename up to its last period;
  \<^item> \<^verbatim>\<open>extension()\<close> is the rest of the filename after its stem;
  \<^item> \<^verbatim>\<open>replace_filename(r)\<close> removes the filename and appends \<open>r\<close> with
    \<^verbatim>\<open>operator/=\<close>;
  \<^item> \<^verbatim>\<open>replace_extension(r)\<close> removes the extension, adds a period if \<open>r\<close> is not
    empty and does not start with one, and appends \<open>r\<close>.
\<close>

definition path_filename :: "string \<Rightarrow> string" where
  "path_filename p = rev (takeWhile (\<lambda>c. c \<noteq> CHR ''/'') (rev p))"

definition remove_filename :: "string \<Rightarrow> string" where
  "remove_filename p = rev (dropWhile (\<lambda>c. c \<noteq> CHR ''/'') (rev p))"

definition path_stem :: "string \<Rightarrow> string" where
  "path_stem p =
     (let f = path_filename p;
          before_last_period = rev (tl (dropWhile (\<lambda>c. c \<noteq> CHR ''.'') (rev f)))
      in if f = ''.'' \<or> f = ''..'' \<or> before_last_period = [] then f
         else before_last_period)"

definition path_extension :: "string \<Rightarrow> string" where
  "path_extension p = drop (length (path_stem p)) (path_filename p)"

definition path_append :: "string \<Rightarrow> string \<Rightarrow> string" where
  "path_append p r =
     (if r \<noteq> [] \<and> hd r = CHR ''/'' then r
      else if path_filename p \<noteq> [] then p @ ''/'' @ r
      else p @ r)"

definition replace_filename :: "string \<Rightarrow> string \<Rightarrow> string" where
  "replace_filename p r = path_append (remove_filename p) r"

definition replace_extension :: "string \<Rightarrow> string \<Rightarrow> string" where
  "replace_extension p r =
     (let without = take (length p - length (path_extension p)) p
      in if r \<noteq> [] \<and> hd r \<noteq> CHR ''.'' then without @ ''.'' @ r else without @ r)"

definition generate_output_filename :: "string \<Rightarrow> interleave_mode \<Rightarrow> fault + string" where
  "generate_output_filename source_filename interleave_mode =
     (case interleave_mode_to_string interleave_mode of
        Inl e \<Rightarrow> Inl e
      | Inr mode_name \<Rightarrow>
          Inr (replace_extension
                 (replace_filename source_filename (path_stem source_filename @ ''-'' @ mode_name))
                 ''.jls''))"

section \<open>Test runners: \<^verbatim>\<open>check_file\<close>, \<^verbatim>\<open>check_color_file\<close>, \<^verbatim>\<open>main\<close>\<close>

definition check_file :: "environment \<Rightarrow> string \<Rightarrow> interleave_mode \<Rightarrow> bool \<Rightarrow> bool run" where
  "check_file env source_filename interleave_mode color =
     then_do (read_anymap_reference_file env source_filename interleave_mode) (\<lambda>reference_file.
     then_do (call (Encoder_call
                      (Frame_info (width reference_file) (height reference_file)
                         (bits_per_sample reference_file) (component_count reference_file))
                      interleave_mode (image_data reference_file))
                (encode env
                   (Frame_info (width reference_file) (height reference_file)
                      (bits_per_sample reference_file) (component_count reference_file))
                   interleave_mode (image_data reference_file))) (\<lambda>(destination, encoded_size).
     let charls_encoded_data = resize destination encoded_size in
     then_do (generate_output_filename source_filename interleave_mode, []) (\<lambda>output_filename.
     then_do (case write_file env output_filename charls_encoded_data of
                Some e \<Rightarrow> (Inl e, [])
              | None \<Rightarrow> emit (File_write output_filename charls_encoded_data)) (\<lambda>_.
     then_do (test_by_decoding env charls_encoded_data (image_data reference_file)) (\<lambda>result.
     let interleave_mode_width = (if color then 6 else 4) in
     then_do (interleave_mode_to_string interleave_mode, []) (\<lambda>mode_name.
     then_do (emit (Info_line (vector_size (image_data reference_file)) encoded_size
                      mode_name interleave_mode_width)) (\<lambda>_.
     done_with result)))))))"

definition check_color_file :: "environment \<Rightarrow> string \<Rightarrow> bool run" where
  "check_color_file env source_filename =
     then_do (check_file env source_filename none True) (\<lambda>result.
       if \<not> result then done_with result
       else
     then_do (check_file env source_filename line True) (\<lambda>result.
       if \<not> result then done_with result
       else check_file env source_filename sample True))"

definition EXIT_SUCCESS :: int where "EXIT_SUCCESS = 0"
definition EXIT_FAILURE :: int where "EXIT_FAILURE = 1"

text \<open>The body of the loop of \<^verbatim>\<open>main\<close> over the directory entries.\<close>

fun check_entries :: "environment \<Rightarrow> string list \<Rightarrow> int run" where
  "check_entries env [] = done_with EXIT_SUCCESS"
| "check_entries env (entry # entries) =
     (let monochrome_anymap = (path_extension entry = ''.pgm'');
          color_anymap = (path_extension entry = ''.ppm'')
      in if monochrome_anymap \<or> color_anymap then
           then_do (emit (Puts (''Checking file: '' @ entry))) (\<lambda>_.
           then_do (if monochrome_anymap then check_file env entry none False
                    else check_color_file env entry) (\<lambda>result.
           then_do (emit (Puts ('' Status: '' @ (if result then ''Passed'' else ''Failed'')))) (\<lambda>_.
           if \<not> result then done_with EXIT_FAILURE
           else check_entries env entries)))
         else check_entries env entries)"

text \<open>
  \<^verbatim>\<open>main\<close>: \<open>argv\<close> holds the \<^verbatim>\<open>argc\<close> arguments, the program name first. The handler
  of the function try block turns an exception into a message and a failure status.
\<close>

definition main :: "environment \<Rightarrow> string list \<Rightarrow> int run" where
  "main env argv =
     (if int (length argv) < 2 then
        then_do (emit (Puts ''usage: charls_image_tester <directory-to-test>'')) (\<lambda>_.
        done_with EXIT_FAILURE)
      else
        (case then_do (call (Directory_scan (argv ! 1)) (directory_entries env (argv ! 1)))
                (check_entries env) of
           (Inl (Exception what), es) \<Rightarrow>
             (Inr EXIT_FAILURE, es @ [Puts (''Unexpected failure: '' @ what)])
         | r \<Rightarrow> r))"

section \<open>Observing a run\<close>

text \<open>The interleave modes of the encoder invocations of a run, in their order.\<close>

fun encoder_modes :: "event list \<Rightarrow> interleave_mode list" where
  "encoder_modes [] = []"
| "encoder_modes (Encoder_call info mode source # es) = mode # encoder_modes es"
| "encoder_modes (e # es) = encoder_modes es"

text \<open>
  A small world to run the harness in: one colour image of 1x2 pixels with 8-bit
  samples, found under every file name; an encoder that copies its source to the
  destination; a decoder given as a parameter; writes that succeed.
\<close>

definition example_image :: portable_anymap_file where
  "example_image =
     \<lparr>width = 1, height = 2, bits_per_sample = 8, component_count = 3,
      image_data = [1, 2, 3, 4, 5, 6]\<rparr>"

definition example_environment :: "(byte list \<Rightarrow> byte list \<times> int32_t) \<Rightarrow> environment" where
  "example_environment decoder =
     \<lparr>directory_entries = (\<lambda>directory. Inr [''images/a.ppm'']),
      anymap_file = (\<lambda>filename. Inr example_image),
      encode = (\<lambda>info mode source. Inr (source, vector_size source)),
      decode = (\<lambda>encoded. Inr (decoder encoded)),
      write_file = (\<lambda>name bytes. None)\<rparr>"

text \<open>A decoder that gives back the planar bytes of the example and nothing else.\<close>

definition line_rejecting_decoder :: "byte list \<Rightarrow> byte list \<times> int32_t" where
  "line_rejecting_decoder encoded = (if encoded = [1, 4, 2, 5, 3, 6] then encoded else [], 0)"

chapter \<open>Properties\<close>

section \<open>The layout transform\<close>

subsection \<open>The loop\<close>

lemma copy_sample_in_range:
  "unat s < length src \<Longrightarrow> unat d < length dst \<Longrightarrow>
   copy_sample dst d src s = Some (dst[unat d := src ! unat s])"
  by (simp add: copy_sample_def read_at_def write_at_def)

lemma unat_source_index:
  fixes i :: size_t
  assumes "unat i * 3 + 2 < 2 ^ 64"
  shows "unat (i * 3 + 0) = unat i * 3" "unat (i * 3 + 1) = unat i * 3 + 1"
    "unat (i * 3 + 2) = unat i * 3 + 2"
  using assms by (simp_all add: unat_word_ariths)

lemma unat_plane_index:
  fixes i n :: size_t
  assumes "unat i + 2 * unat n < 2 ^ 64"
  shows "unat (i + 1 * n) = unat i + unat n" "unat (i + 2 * n) = unat i + 2 * unat n"
  using assms by (simp_all add: unat_word_ariths)

lemma unat_next_index:
  fixes i n :: size_t
  assumes "unat i < unat n"
  shows "unat (i + 1) = unat i + 1"
proof -
  have "unat n < 2 ^ 64" using unsigned_less [of n] by simp
  with assms show ?thesis by (simp add: unat_word_ariths)
qed

lemma planar_loop_step:
  fixes i n :: size_t
  assumes "unat i < unat n" "3 * unat n \<le> length source" "3 * unat n \<le> length work"
    "3 * unat n < 2 ^ 64"
  shows "planar_loop i n source work =
     planar_loop (i + 1) n source
       (work[unat i := source ! (unat i * 3),
             unat i + unat n := source ! (unat i * 3 + 1),
             unat i + 2 * unat n := source ! (unat i * 3 + 2)])"
proof -
  from assms have ne: "i \<noteq> n" by auto
  from assms have s: "unat i * 3 + 2 < 2 ^ 64" and p: "unat i + 2 * unat n < 2 ^ 64"
    by simp_all
  let ?w0 = "work[unat i := source ! (unat i * 3)]"
  let ?w1 = "?w0[unat i + unat n := source ! (unat i * 3 + 1)]"
  let ?w2 = "?w1[unat i + 2 * unat n := source ! (unat i * 3 + 2)]"
  have c0: "copy_sample work i source (i * 3 + 0) = Some ?w0"
    using assms by (simp only: copy_sample_in_range unat_source_index [OF s])
  have c1: "copy_sample ?w0 (i + 1 * n) source (i * 3 + 1) = Some ?w1"
    using assms
    by (simp add: copy_sample_in_range unat_source_index [OF s] unat_plane_index [OF p]
        del: mult_1 mult_1_left)
  have c2: "copy_sample ?w1 (i + 2 * n) source (i * 3 + 2) = Some ?w2"
    using assms
    by (simp add: copy_sample_in_range unat_source_index [OF s] unat_plane_index [OF p])
  show ?thesis
    by (subst planar_loop.simps) (simp only: ne c0 c1 c2 if_True option.case not_False_eq_True)
qed

lemma planar_loop_inv:
  fixes i n :: size_t
  assumes "unat i \<le> unat n" "3 * unat n \<le> length source" "3 * unat n \<le> length work"
    "3 * unat n < 2 ^ 64"
  shows "\<exists>out. planar_loop i n source work = Some out \<and> length out = length work \<and>
     (\<forall>p. unat i \<le> p \<and> p < unat n \<longrightarrow>
        out ! p = source ! (p * 3) \<and> out ! (p + unat n) = source ! (p * 3 + 1) \<and>
        out ! (p + 2 * unat n) = source ! (p * 3 + 2)) \<and>
     (\<forall>j. j < unat i \<or> (unat n \<le> j \<and> j < unat n + unat i) \<or>
          (2 * unat n \<le> j \<and> j < 2 * unat n + unat i) \<or> 3 * unat n \<le> j \<longrightarrow>
        out ! j = work ! j)"
  using assms
proof (induction "unat n - unat i" arbitrary: i work)
  case 0
  then have "i = n"
    by (simp add: word_unat_eq_iff)
  then show ?case
    by (subst planar_loop.simps) auto
next
  case (Suc k)
  from Suc.hyps(2) have lt: "unat i < unat n"
    by simp
  let ?w = "work[unat i := source ! (unat i * 3),
             unat i + unat n := source ! (unat i * 3 + 1),
             unat i + 2 * unat n := source ! (unat i * 3 + 2)]"
  have step: "planar_loop i n source work = planar_loop (i + 1) n source ?w"
    using lt Suc.prems by (intro planar_loop_step) simp_all
  have nx: "unat (i + 1) = unat i + 1"
    using lt by (rule unat_next_index)
  have "k = unat n - unat (i + 1)"
    using Suc.hyps(2) nx by simp
  moreover have "unat (i + 1) \<le> unat n"
    using lt nx by simp
  moreover have "3 * unat n \<le> length ?w"
    using Suc.prems by simp
  ultimately obtain out where out: "planar_loop (i + 1) n source ?w = Some out"
      "length out = length ?w"
      "\<And>p. unat (i + 1) \<le> p \<Longrightarrow> p < unat n \<Longrightarrow>
        out ! p = source ! (p * 3) \<and> out ! (p + unat n) = source ! (p * 3 + 1) \<and>
        out ! (p + 2 * unat n) = source ! (p * 3 + 2)"
      "\<And>j. j < unat (i + 1) \<or> (unat n \<le> j \<and> j < unat n + unat (i + 1)) \<or>
          (2 * unat n \<le> j \<and> j < 2 * unat n + unat (i + 1)) \<or> 3 * unat n \<le> j \<Longrightarrow>
        out ! j = ?w ! j"
    using Suc.hyps(1) [of "i + 1" ?w] Suc.prems(2,4) by blast
  have len: "unat i + 2 * unat n < length work"
    using lt Suc.prems by simp
  have here: "out ! unat i = source ! (unat i * 3)"
      "out ! (unat i + unat n) = source ! (unat i * 3 + 1)"
      "out ! (unat i + 2 * unat n) = source ! (unat i * 3 + 2)"
    using out(4) [of "unat i"] out(4) [of "unat i + unat n"] out(4) [of "unat i + 2 * unat n"]
      nx lt len
    by simp_all
  have later: "out ! p = source ! (p * 3) \<and> out ! (p + unat n) = source ! (p * 3 + 1) \<and>
        out ! (p + 2 * unat n) = source ! (p * 3 + 2)" if "unat i \<le> p" "p < unat n" for p
  proof (cases "p = unat i")
    case True
    with here show ?thesis by simp
  next
    case False
    with that nx show ?thesis by (intro out(3)) simp_all
  qed
  have frame: "out ! j = work ! j"
    if "j < unat i \<or> (unat n \<le> j \<and> j < unat n + unat i) \<or>
          (2 * unat n \<le> j \<and> j < 2 * unat n + unat i) \<or> 3 * unat n \<le> j" for j
  proof -
    have "out ! j = ?w ! j"
      using that nx by (intro out(4)) auto
    also have "?w ! j = work ! j"
      using that lt by auto
    finally show ?thesis .
  qed
  show ?case
    unfolding step using out(1,2) later frame by simp
qed

lemma length_as_uint16: "length (as_uint16 xs) = length xs div 2"
  by (induction xs rule: as_uint16.induct) simp_all

lemma length_as_bytes: "length (as_bytes ws) = 2 * length ws"
  by (induction ws rule: as_bytes.induct) simp_all

lemma as_uint16_as_bytes: "as_uint16 (as_bytes ws) = ws"
  by (induction ws rule: as_bytes.induct) simp_all

lemma as_bytes_as_uint16: "even (length xs) \<Longrightarrow> as_bytes (as_uint16 xs) = xs"
  by (induction xs rule: as_uint16.induct) simp_all

lemma three_elements:
  assumes "length ys = 3"
  shows "ys = [ys ! 0, ys ! 1, ys ! 2]"
proof -
  from assms obtain a b c where "ys = [a, b, c]"
    by (cases ys; cases "tl ys"; cases "tl (tl ys)") auto
  then show ?thesis by simp
qed

lemma concat_triplets:
  "length xs = 3 * n \<Longrightarrow>
   concat (map (\<lambda>i. [xs ! (i * 3), xs ! (i * 3 + 1), xs ! (i * 3 + 2)]) [0..<n]) = xs"
proof (induction n arbitrary: xs)
  case 0
  then show ?case by simp
next
  case (Suc n)
  let ?front = "take (3 * n) xs"
  let ?rear = "drop (3 * n) xs"
  have front: "concat (map (\<lambda>i. [?front ! (i * 3), ?front ! (i * 3 + 1), ?front ! (i * 3 + 2)]) [0..<n])
      = ?front"
    using Suc.prems by (intro Suc.IH) simp
  have same: "map (\<lambda>i. [xs ! (i * 3), xs ! (i * 3 + 1), xs ! (i * 3 + 2)]) [0..<n]
      = map (\<lambda>i. [?front ! (i * 3), ?front ! (i * 3 + 1), ?front ! (i * 3 + 2)]) [0..<n]"
    by (rule map_cong) auto
  have "length ?rear = 3"
    using Suc.prems by simp
  then have "?rear = [?rear ! 0, ?rear ! 1, ?rear ! 2]"
    by (rule three_elements)
  then have rear: "[xs ! (n * 3), xs ! (n * 3 + 1), xs ! (n * 3 + 2)] = ?rear"
    using Suc.prems by (simp add: mult.commute)
  have "concat (map (\<lambda>i. [xs ! (i * 3), xs ! (i * 3 + 1), xs ! (i * 3 + 2)]) [0..<Suc n])
      = concat (map (\<lambda>i. [xs ! (i * 3), xs ! (i * 3 + 1), xs ! (i * 3 + 2)]) [0..<n])
        @ [xs ! (n * 3), xs ! (n * 3 + 1), xs ! (n * 3 + 2)]"
    by simp
  also have "\<dots> = ?front @ ?rear"
    by (simp only: same front rear)
  finally show ?case by simp
qed

lemma regroup_samples_inverse:
  assumes "length xs = 3 * n"
    and "\<And>p. p < n \<Longrightarrow> out ! p = xs ! (p * 3) \<and> out ! (p + n) = xs ! (p * 3 + 1) \<and>
        out ! (p + 2 * n) = xs ! (p * 3 + 2)"
  shows "regroup_samples n out = xs"
proof -
  have "map (\<lambda>i. [out ! i, out ! (i + n), out ! (i + 2 * n)]) [0..<n]
      = map (\<lambda>i. [xs ! (i * 3), xs ! (i * 3 + 1), xs ! (i * 3 + 2)]) [0..<n]"
    using assms(2) by (intro map_cong) auto
  then have "regroup_samples n out
      = concat (map (\<lambda>i. [xs ! (i * 3), xs ! (i * 3 + 1), xs ! (i * 3 + 2)]) [0..<n])"
    by (simp only: regroup_samples_def)
  also have "\<dots> = xs"
    using assms(1) by (rule concat_triplets)
  finally show ?thesis .
qed


lemma planar_loop_from_start:
  fixes n :: size_t
  assumes "length source = 3 * unat n" "length work = length source" "3 * unat n < 2 ^ 64"
  obtains out where "planar_loop 0 n source work = Some out" "length out = length source"
    "\<And>p. p < unat n \<Longrightarrow> out ! p = source ! (p * 3) \<and> out ! (p + unat n) = source ! (p * 3 + 1) \<and>
        out ! (p + 2 * unat n) = source ! (p * 3 + 2)"
proof -
  have "\<exists>out. planar_loop 0 n source work = Some out \<and> length out = length work \<and>
     (\<forall>p. unat (0 :: size_t) \<le> p \<and> p < unat n \<longrightarrow>
        out ! p = source ! (p * 3) \<and> out ! (p + unat n) = source ! (p * 3 + 1) \<and>
        out ! (p + 2 * unat n) = source ! (p * 3 + 2)) \<and>
     (\<forall>j. j < unat (0 :: size_t) \<or> (unat n \<le> j \<and> j < unat n + unat (0 :: size_t)) \<or>
          (2 * unat n \<le> j \<and> j < 2 * unat n + unat (0 :: size_t)) \<or> 3 * unat n \<le> j \<longrightarrow>
        out ! j = work ! j)"
    using assms by (intro planar_loop_inv) simp_all
  then show thesis
    using that assms(2) by auto
qed

lemma samples_per_plane_exact:
  fixes w h :: size_t
  assumes "length buffer = unat w * unat h * 3 * u" "length buffer < 2 ^ 64" "0 < u"
  shows "unat (w * h) = unat w * unat h" "3 * (unat w * unat h) < 2 ^ 64"
proof -
  have "3 * (unat w * unat h) * 1 \<le> 3 * (unat w * unat h) * u"
    using assms(3) by (intro mult_le_mono2) simp
  then have "3 * (unat w * unat h) \<le> unat w * unat h * 3 * u"
    by (simp add: mult_ac)
  moreover have "unat w * unat h * 3 * u < 2 ^ 64"
    using assms(2) unfolding assms(1) .
  ultimately show b: "3 * (unat w * unat h) < 2 ^ 64"
    by (rule le_less_trans)
  then have "unat w * unat h < 2 ^ LENGTH(64)"
    by simp
  then show "unat (w * h) = unat w * unat h"
    by (simp only: unat_mult_lem)
qed

lemma triplet_to_planar_8:
  fixes w h :: size_t
  assumes "\<not> 8 <s bps" "length buffer = unat w * unat h * 3" "length buffer < 2 ^ 64"
  obtains out where "triplet_to_planar buffer w h bps = Some out" "length out = length buffer"
    "\<And>p. p < unat w * unat h \<Longrightarrow> out ! p = buffer ! (p * 3) \<and>
        out ! (p + unat w * unat h) = buffer ! (p * 3 + 1) \<and>
        out ! (p + 2 * (unat w * unat h)) = buffer ! (p * 3 + 2)"
proof -
  have n: "unat (w * h) = unat w * unat h" "3 * (unat w * unat h) < 2 ^ 64"
    using samples_per_plane_exact [of buffer w h 1] assms(2,3) by simp_all
  obtain out where out: "planar_loop 0 (w * h) buffer (replicate (length buffer) 0) = Some out"
    "length out = length buffer"
    "\<And>p. p < unat (w * h) \<Longrightarrow> out ! p = buffer ! (p * 3) \<and>
        out ! (p + unat (w * h)) = buffer ! (p * 3 + 1) \<and>
        out ! (p + 2 * unat (w * h)) = buffer ! (p * 3 + 2)"
    using n assms(2) by (elim planar_loop_from_start [of buffer "w * h" "replicate (length buffer) 0", rotated -1]) simp_all
  have "triplet_to_planar buffer w h bps = Some out"
    using assms(1) out(1) by (simp add: triplet_to_planar_def)
  then show thesis
  proof (rule that)
    show "length out = length buffer"
      by (rule out(2))
  next
    fix p assume "p < unat w * unat h"
    then show "out ! p = buffer ! (p * 3) \<and>
        out ! (p + unat w * unat h) = buffer ! (p * 3 + 1) \<and>
        out ! (p + 2 * (unat w * unat h)) = buffer ! (p * 3 + 2)"
      using out(3) [of p] n(1) by simp
  qed
qed

lemma triplet_to_planar_16:
  fixes w h :: size_t
  assumes "8 <s bps" "length buffer = unat w * unat h * 3 * 2" "length buffer < 2 ^ 64"
  obtains out where "triplet_to_planar buffer w h bps = Some out" "length out = length buffer"
    "\<And>p. p < unat w * unat h \<Longrightarrow> as_uint16 out ! p = as_uint16 buffer ! (p * 3) \<and>
        as_uint16 out ! (p + unat w * unat h) = as_uint16 buffer ! (p * 3 + 1) \<and>
        as_uint16 out ! (p + 2 * (unat w * unat h)) = as_uint16 buffer ! (p * 3 + 2)"
proof -
  let ?work = "replicate (length buffer) (0 :: byte)"
  have n: "unat (w * h) = unat w * unat h" "3 * (unat w * unat h) < 2 ^ 64"
    using samples_per_plane_exact [of buffer w h 2] assms(2,3) by simp_all
  have len: "length (as_uint16 buffer) = 3 * unat (w * h)"
      "length (as_uint16 ?work) = length (as_uint16 buffer)"
    using assms(2) n(1) by (simp_all add: length_as_uint16)
  obtain out16 where out: "planar_loop 0 (w * h) (as_uint16 buffer) (as_uint16 ?work) = Some out16"
    "length out16 = length (as_uint16 buffer)"
    "\<And>p. p < unat (w * h) \<Longrightarrow> out16 ! p = as_uint16 buffer ! (p * 3) \<and>
        out16 ! (p + unat (w * h)) = as_uint16 buffer ! (p * 3 + 1) \<and>
        out16 ! (p + 2 * unat (w * h)) = as_uint16 buffer ! (p * 3 + 2)"
    using n len by (elim planar_loop_from_start [of "as_uint16 buffer" "w * h" "as_uint16 ?work", rotated -1]) simp_all
  have full: "2 * length out16 = length buffer"
    using out(2) assms(2) by (simp add: length_as_uint16)
  have res: "triplet_to_planar buffer w h bps = Some (as_bytes out16)"
    using assms(1) out(1) full by (simp add: triplet_to_planar_def)
  show thesis
  proof (rule that [OF res])
    show "length (as_bytes out16) = length buffer"
      using full by (simp add: length_as_bytes)
  next
    fix p assume "p < unat w * unat h"
    then show "as_uint16 (as_bytes out16) ! p = as_uint16 buffer ! (p * 3) \<and>
        as_uint16 (as_bytes out16) ! (p + unat w * unat h) = as_uint16 buffer ! (p * 3 + 1) \<and>
        as_uint16 (as_bytes out16) ! (p + 2 * (unat w * unat h)) = as_uint16 buffer ! (p * 3 + 2)"
      using out(3) [of p] n(1) by (simp add: as_uint16_as_bytes)
  qed
qed

subsection \<open>Claims on the layout transform\<close>

text \<open>
  Claim C2. For a 3-component sample-interleaved buffer of \<open>width * height\<close> pixels
  (its length is \<open>width * height * 3\<close> sample units, and fits \<^verbatim>\<open>size_t\<close> as the size of
  every vector does), \<^verbatim>\<open>triplet_to_planar\<close> returns a buffer in which, for each pixel
  index \<open>i < width * height\<close> and each \<open>k < 3\<close>, the sample at destination offset
  \<open>i + k * width * height\<close> is the sample at source offset \<open>i * 3 + k\<close>; offsets count
  2-byte units when bits per sample exceeds 8 and bytes otherwise.
\<close>

theorem triplet_to_planar_layout:
  fixes w h :: size_t and bps :: int32_t
  assumes "length buffer = unat w * unat h * 3 * (if 8 <s bps then 2 else 1)"
    and "length buffer < 2 ^ 64"
  shows "\<exists>out. triplet_to_planar buffer w h bps = Some out \<and>
     (\<forall>i<unat w * unat h. \<forall>k<3.
        if 8 <s bps
        then as_uint16 out ! (i + k * (unat w * unat h)) = as_uint16 buffer ! (i * 3 + k)
        else out ! (i + k * (unat w * unat h)) = buffer ! (i * 3 + k))"
proof (cases "8 <s bps")
  case True
  with assms(1) have "length buffer = unat w * unat h * 3 * 2"
    by simp
  with True obtain out where out: "triplet_to_planar buffer w h bps = Some out"
    "length out = length buffer"
    "\<And>p. p < unat w * unat h \<Longrightarrow> as_uint16 out ! p = as_uint16 buffer ! (p * 3) \<and>
        as_uint16 out ! (p + unat w * unat h) = as_uint16 buffer ! (p * 3 + 1) \<and>
        as_uint16 out ! (p + 2 * (unat w * unat h)) = as_uint16 buffer ! (p * 3 + 2)"
    using assms(2) by (elim triplet_to_planar_16 [of bps buffer w h, rotated -1]) simp_all
  have "as_uint16 out ! (i + k * (unat w * unat h)) = as_uint16 buffer ! (i * 3 + k)"
    if "i < unat w * unat h" "k < 3" for i k
  proof -
    from that(2) consider "k = 0" | "k = 1" | "k = 2"
      by linarith
    then show ?thesis
      using out(3) [OF that(1)] by cases simp_all
  qed
  with True out(1) show ?thesis
    by simp
next
  case False
  with assms(1) have "length buffer = unat w * unat h * 3"
    by simp
  with False obtain out where out: "triplet_to_planar buffer w h bps = Some out"
    "length out = length buffer"
    "\<And>p. p < unat w * unat h \<Longrightarrow> out ! p = buffer ! (p * 3) \<and>
        out ! (p + unat w * unat h) = buffer ! (p * 3 + 1) \<and>
        out ! (p + 2 * (unat w * unat h)) = buffer ! (p * 3 + 2)"
    using assms(2) by (elim triplet_to_planar_8 [of bps buffer w h, rotated -1]) simp_all
  have "out ! (i + k * (unat w * unat h)) = buffer ! (i * 3 + k)"
    if "i < unat w * unat h" "k < 3" for i k
  proof -
    from that(2) consider "k = 0" | "k = 1" | "k = 2"
      by linarith
    then show ?thesis
      using out(3) [OF that(1)] by cases simp_all
  qed
  with False out(1) show ?thesis
    by simp
qed

text \<open>
  The scenario of the claim: a 4x2, 8-bit, 3-component buffer
  \<open>[R0, G0, B0, ..., R7, G7, B7]\<close> becomes \<open>[R0..R7, G0..G7, B0..B7]\<close>.
\<close>

lemma triplet_to_planar_scenario:
  "triplet_to_planar
     [r0, g0, b0, r1, g1, b1, r2, g2, b2, r3, g3, b3, r4, g4, b4, r5, g5, b5, r6, g6, b6, r7, g7, b7]
     4 2 8
   = Some [r0, r1, r2, r3, r4, r5, r6, r7, g0, g1, g2, g3, g4, g5, g6, g7,
           b0, b1, b2, b3, b4, b5, b6, b7]"
  by (simp add: triplet_to_planar_def planar_loop.simps copy_sample_def read_at_def write_at_def)

theorem triplet_to_planar_layout_witness:
  "length [10, 20, 30, 11, 21, 31, 12, 22, 32, 13, 23, 33, 14, 24, 34, 15, 25, 35,
           16, 26, 36, 17, 27, 37 :: byte]
     = unat (4 :: size_t) * unat (2 :: size_t) * 3 * (if 8 <s (8 :: int32_t) then 2 else 1) \<and>
   triplet_to_planar
     [10, 20, 30, 11, 21, 31, 12, 22, 32, 13, 23, 33, 14, 24, 34, 15, 25, 35,
      16, 26, 36, 17, 27, 37] 4 2 8
     = Some [10, 11, 12, 13, 14, 15, 16, 17, 20, 21, 22, 23, 24, 25, 26, 27,
             30, 31, 32, 33, 34, 35, 36, 37] \<and>
   (\<exists>out. triplet_to_planar
       [10, 20, 30, 11, 21, 31, 12, 22, 32, 13, 23, 33, 14, 24, 34, 15, 25, 35,
        16, 26, 36, 17, 27, 37] 4 2 8 = Some out \<and>
     (\<forall>i<unat (4 :: size_t) * unat (2 :: size_t). \<forall>k<3.
        if 8 <s (8 :: int32_t)
        then as_uint16 out ! (i + k * (unat (4 :: size_t) * unat (2 :: size_t)))
           = as_uint16 [10, 20, 30, 11, 21, 31, 12, 22, 32, 13, 23, 33, 14, 24, 34, 15, 25, 35,
               16, 26, 36, 17, 27, 37] ! (i * 3 + k)
        else out ! (i + k * (unat (4 :: size_t) * unat (2 :: size_t)))
           = [10, 20, 30, 11, 21, 31, 12, 22, 32, 13, 23, 33, 14, 24, 34, 15, 25, 35,
               16, 26, 36, 17, 27, 37] ! (i * 3 + k)))"
proof -
  let ?buffer = "[10, 20, 30, 11, 21, 31, 12, 22, 32, 13, 23, 33, 14, 24, 34, 15, 25, 35,
      16, 26, 36, 17, 27, 37 :: byte]"
  have size: "length ?buffer
      = unat (4 :: size_t) * unat (2 :: size_t) * 3 * (if 8 <s (8 :: int32_t) then 2 else 1)"
    by simp
  have bound: "length ?buffer < 2 ^ 64"
    by simp
  show ?thesis
    using size triplet_to_planar_scenario triplet_to_planar_layout [OF size bound]
    by (intro conjI)
qed

text \<open>
  Claim C3. For a 3-component sample-interleaved buffer whose length is
  \<open>width * height * 3\<close> times the bytes per sample, \<^verbatim>\<open>triplet_to_planar\<close> returns a
  buffer of the same length, and regrouping that buffer back into triplets gives
  the original buffer. It holds for every bit depth, 8 and 16 among them.
\<close>

theorem triplet_to_planar_invertible:
  fixes w h :: size_t and bps :: int32_t
  assumes "length buffer = unat w * unat h * 3 * (if 8 <s bps then 2 else 1)"
    and "length buffer < 2 ^ 64"
  shows "\<exists>out. triplet_to_planar buffer w h bps = Some out \<and> length out = length buffer \<and>
     planar_to_triplet out w h bps = buffer"
proof (cases "8 <s bps")
  case True
  with assms(1) have len: "length buffer = unat w * unat h * 3 * 2"
    by simp
  with True obtain out where out: "triplet_to_planar buffer w h bps = Some out"
    "length out = length buffer"
    "\<And>p. p < unat w * unat h \<Longrightarrow> as_uint16 out ! p = as_uint16 buffer ! (p * 3) \<and>
        as_uint16 out ! (p + unat w * unat h) = as_uint16 buffer ! (p * 3 + 1) \<and>
        as_uint16 out ! (p + 2 * (unat w * unat h)) = as_uint16 buffer ! (p * 3 + 2)"
    using assms(2) by (elim triplet_to_planar_16 [of bps buffer w h, rotated -1]) simp_all
  have n: "unat (w * h) = unat w * unat h"
    using samples_per_plane_exact(1) [of buffer w h 2] len assms(2) by simp
  have "length (as_uint16 buffer) = 3 * (unat w * unat h)"
    using len by (simp add: length_as_uint16)
  then have "regroup_samples (unat w * unat h) (as_uint16 out) = as_uint16 buffer"
    using out(3) by (rule regroup_samples_inverse)
  moreover have "as_bytes (as_uint16 buffer) = buffer"
    using len by (intro as_bytes_as_uint16) simp
  ultimately have "planar_to_triplet out w h bps = buffer"
    using True n by (simp add: planar_to_triplet_def)
  with out(1,2) show ?thesis
    by simp
next
  case False
  with assms(1) have len: "length buffer = unat w * unat h * 3"
    by simp
  with False obtain out where out: "triplet_to_planar buffer w h bps = Some out"
    "length out = length buffer"
    "\<And>p. p < unat w * unat h \<Longrightarrow> out ! p = buffer ! (p * 3) \<and>
        out ! (p + unat w * unat h) = buffer ! (p * 3 + 1) \<and>
        out ! (p + 2 * (unat w * unat h)) = buffer ! (p * 3 + 2)"
    using assms(2) by (elim triplet_to_planar_8 [of bps buffer w h, rotated -1]) simp_all
  have n: "unat (w * h) = unat w * unat h"
    using samples_per_plane_exact(1) [of buffer w h 1] len assms(2) by simp
  have "length buffer = 3 * (unat w * unat h)"
    using len by simp
  then have "regroup_samples (unat w * unat h) out = buffer"
    using out(3) by (rule regroup_samples_inverse)
  then have "planar_to_triplet out w h bps = buffer"
    using False n by (simp add: planar_to_triplet_def)
  with out(1,2) show ?thesis
    by simp
qed

theorem triplet_to_planar_invertible_witness:
  "length [1, 2, 3, 4, 5, 6, 7, 8, 9, 10, 11, 12 :: byte]
     = unat (2 :: size_t) * unat (1 :: size_t) * 3 * (if 8 <s (16 :: int32_t) then 2 else 1) \<and>
   triplet_to_planar [1, 2, 3, 4, 5, 6, 7, 8, 9, 10, 11, 12] 2 1 16
     = Some [1, 2, 7, 8, 3, 4, 9, 10, 5, 6, 11, 12] \<and>
   planar_to_triplet [1, 2, 7, 8, 3, 4, 9, 10, 5, 6, 11, 12] 2 1 16
     = [1, 2, 3, 4, 5, 6, 7, 8, 9, 10, 11, 12]"
proof -
  let ?buffer = "[1, 2, 3, 4, 5, 6, 7, 8, 9, 10, 11, 12 :: byte]"
  have size: "length ?buffer
      = unat (2 :: size_t) * unat (1 :: size_t) * 3 * (if 8 <s (16 :: int32_t) then 2 else 1)"
    by simp
  have bound: "length ?buffer < 2 ^ 64"
    by simp
  have planar: "triplet_to_planar ?buffer 2 1 16 = Some [1, 2, 7, 8, 3, 4, 9, 10, 5, 6, 11, 12]"
    by (simp add: triplet_to_planar_def planar_loop.simps copy_sample_def read_at_def write_at_def)
  show ?thesis
    using size planar triplet_to_planar_invertible [OF size bound]
    by simp
qed

section \<open>The round-trip validator\<close>

lemma then_do_Inr [simp]: "then_do (Inr x, es) f = (fst (f x), es @ snd (f x))"
  by (simp add: then_do_def split: prod.splits)

lemma then_do_Inl [simp]: "then_do (Inl e, es) f = (Inl e, es)"
  by (simp add: then_do_def)

lemma unat_vector_size: "length xs < 2 ^ 64 \<Longrightarrow> unat (vector_size xs) = length xs"
  by (simp add: vector_size_def unat_of_nat)

lemma compare_loop_result:
  assumes "length decoded = length original" "length original < 2 ^ 64"
    "unat i \<le> length original"
  shows "compare_loop i decoded original =
     (if drop (unat i) decoded = drop (unat i) original then (Inr True, [])
      else (Inr False, [Puts ''Pixel data value doesn't match'']))"
  using assms
proof (induction "length original - unat i" arbitrary: i)
  case 0
  then have "unat i = length original"
    by simp
  then have "\<not> i < vector_size original"
    using "0.prems"(2) by (simp add: word_less_nat_alt unat_vector_size)
  then show ?case
    using 0 by (subst compare_loop.simps) (simp add: done_with_def)
next
  case (Suc k)
  then have lt: "unat i < length original"
    by simp
  then have less: "i < vector_size original"
    using Suc.prems(2) by (simp add: word_less_nat_alt unat_vector_size)
  have nx: "unat (i + 1) = unat i + 1"
    using lt Suc.prems(2) by (simp add: unat_word_ariths)
  have dd: "drop (unat i) decoded = decoded ! unat i # drop (unat i + 1) decoded"
    using lt Suc.prems(1) by (simp add: Cons_nth_drop_Suc)
  have od: "drop (unat i) original = original ! unat i # drop (unat i + 1) original"
    using lt by (simp add: Cons_nth_drop_Suc)
  show ?case
  proof (cases "decoded ! unat i = original ! unat i")
    case True
    have "compare_loop i decoded original = compare_loop (i + 1) decoded original"
      using less lt True Suc.prems(1)
      by (subst compare_loop.simps) (simp add: read_at_def)
    also have "\<dots> = (if drop (unat (i + 1)) decoded = drop (unat (i + 1)) original then (Inr True, [])
      else (Inr False, [Puts ''Pixel data value doesn't match'']))"
      using Suc.hyps(2) Suc.prems lt nx by (intro Suc.hyps(1)) simp_all
    finally show ?thesis
      using True by (simp add: dd od nx)
  next
    case False
    have "compare_loop i decoded original = (Inr False, [Puts ''Pixel data value doesn't match''])"
      using less lt False Suc.prems(1)
      by (subst compare_loop.simps) (simp add: read_at_def emit_def done_with_def)
    then show ?thesis
      using False by (simp add: dd od)
  qed
qed

lemma compare_loop_from_start:
  assumes "length decoded = length original" "length original < 2 ^ 64"
  shows "compare_loop 0 decoded original =
     (if decoded = original then (Inr True, [])
      else (Inr False, [Puts ''Pixel data value doesn't match'']))"
  using compare_loop_result [OF assms, of 0] by simp

lemma test_by_decoding_result:
  assumes "decode env encoded_source = Inr (decoded, near_lossless)"
    and "length decoded < 2 ^ 64" and "length original_source < 2 ^ 64"
  shows "test_by_decoding env encoded_source original_source =
     (if length decoded \<noteq> length original_source then
        (Inr False, [Decoder_call encoded_source, Puts ''Pixel data size doesn't match''])
      else if near_lossless = 0 \<and> decoded \<noteq> original_source then
        (Inr False, [Decoder_call encoded_source, Puts ''Pixel data value doesn't match''])
      else (Inr True, [Decoder_call encoded_source]))"
proof (cases "length decoded = length original_source")
  case True
  then have same: "vector_size decoded = vector_size original_source"
    by (simp add: vector_size_def)
  have unfolded: "test_by_decoding env encoded_source original_source =
      (case (if near_lossless = 0 then compare_loop 0 decoded original_source else (Inr True, []))
       of (r, es) \<Rightarrow> (r, Decoder_call encoded_source # es))"
    using assms(1) same
    by (simp add: test_by_decoding_def call_def done_with_def split: prod.splits)
  show ?thesis
    unfolding unfolded compare_loop_from_start [OF True assms(3)]
    using True by simp
next
  case False
  then have "vector_size decoded \<noteq> vector_size original_source"
    using assms(2,3) unat_vector_size [of decoded] unat_vector_size [of original_source]
    by auto
  then show ?thesis
    using assms(1) False by (simp add: test_by_decoding_def call_def emit_def done_with_def)
qed

text \<open>
  Claim C4. When the decoder succeeds and the decoded size differs from the size of
  the original buffer (both sizes fit \<^verbatim>\<open>size_t\<close>), \<^verbatim>\<open>test_by_decoding\<close> fails with the
  size message and nothing else after the decoder call, whatever the bytes of the
  two buffers and whatever the near-lossless parameter are: the outcome is fixed
  before any byte is compared, and the value message is not printed.
\<close>

theorem test_by_decoding_size_mismatch:
  assumes "decode env encoded_source = Inr (decoded, near_lossless)"
    and "length decoded \<noteq> length original_source"
    and "length decoded < 2 ^ 64" and "length original_source < 2 ^ 64"
  shows "test_by_decoding env encoded_source original_source =
     (Inr False, [Decoder_call encoded_source, Puts ''Pixel data size doesn't match''])"
  using assms(2) test_by_decoding_result [OF assms(1,3,4)] by simp

theorem test_by_decoding_size_mismatch_witness:
  "decode (example_environment (\<lambda>encoded. ([1, 2], 0))) [9] = Inr ([1, 2], 0) \<and>
   length [1, 2 :: byte] \<noteq> length [1, 2, 3 :: byte] \<and>
   test_by_decoding (example_environment (\<lambda>encoded. ([1, 2], 0))) [9] [1, 2, 3]
     = (Inr False, [Decoder_call [9], Puts ''Pixel data size doesn't match''])"
proof -
  let ?env = "example_environment (\<lambda>encoded. ([1, 2], 0))"
  have decoded: "decode ?env [9] = Inr ([1, 2], 0)"
    by (simp add: example_environment_def)
  have differ: "length [1, 2 :: byte] \<noteq> length [1, 2, 3 :: byte]"
    by simp
  have small: "length [1, 2 :: byte] < 2 ^ 64" "length [1, 2, 3 :: byte] < 2 ^ 64"
    by simp_all
  show ?thesis
    using decoded differ test_by_decoding_size_mismatch [OF decoded differ small]
    by (intro conjI)
qed

text \<open>
  Claim C5. When the decoder succeeds and the sizes match: if the stream reports
  near-lossless 0, \<^verbatim>\<open>test_by_decoding\<close> passes exactly when the decoded buffer equals
  the reference buffer byte for byte, and otherwise fails with the value message;
  if the stream reports any other near-lossless value, it passes whatever the
  bytes are.
\<close>

theorem test_by_decoding_same_size:
  assumes "decode env encoded_source = Inr (decoded, near_lossless)"
    and "length decoded = length original_source"
    and "length original_source < 2 ^ 64"
  shows "test_by_decoding env encoded_source original_source =
     (if near_lossless = 0 then
        (if decoded = original_source then (Inr True, [Decoder_call encoded_source])
         else (Inr False, [Decoder_call encoded_source, Puts ''Pixel data value doesn't match'']))
      else (Inr True, [Decoder_call encoded_source]))"
proof -
  have "length decoded < 2 ^ 64"
    using assms(2,3) by simp
  from test_by_decoding_result [OF assms(1) this assms(3)] show ?thesis
    using assms(2) by simp
qed

theorem test_by_decoding_same_size_witness:
  "decode (example_environment (\<lambda>encoded. ([1, 2, 4], 0))) [9] = Inr ([1, 2, 4], 0) \<and>
   test_by_decoding (example_environment (\<lambda>encoded. ([1, 2, 4], 0))) [9] [1, 2, 3]
     = (Inr False, [Decoder_call [9], Puts ''Pixel data value doesn't match'']) \<and>
   decode (example_environment (\<lambda>encoded. ([1, 2, 4], 2))) [9] = Inr ([1, 2, 4], 2) \<and>
   test_by_decoding (example_environment (\<lambda>encoded. ([1, 2, 4], 2))) [9] [1, 2, 3]
     = (Inr True, [Decoder_call [9]])"
proof -
  let ?lossless = "example_environment (\<lambda>encoded. ([1, 2, 4], 0))"
  let ?near = "example_environment (\<lambda>encoded. ([1, 2, 4], 2))"
  have exact: "decode ?lossless [9] = Inr ([1, 2, 4], 0)"
    by (simp add: example_environment_def)
  have near: "decode ?near [9] = Inr ([1, 2, 4], 2)"
    by (simp add: example_environment_def)
  have same: "length [1, 2, 4 :: byte] = length [1, 2, 3 :: byte]"
    by simp
  have small: "length [1, 2, 3 :: byte] < 2 ^ 64"
    by simp
  show ?thesis
    using exact near
      test_by_decoding_same_size [OF exact same small]
      test_by_decoding_same_size [OF near same small]
    by simp
qed

section \<open>The reference loader\<close>

lemma modes_distinct: "none \<noteq> line" "none \<noteq> sample" "line \<noteq> sample"
  by (simp_all add: none_def line_def sample_def)

lemma interleave_mode_to_string_cases:
  "interleave_mode_to_string none = Inr ''none''"
  "interleave_mode_to_string line = Inr ''line''"
  "interleave_mode_to_string sample = Inr ''sample''"
  by (simp_all add: interleave_mode_to_string_def none_def line_def sample_def)

lemma read_anymap_reference_file_result:
  assumes "anymap_file env filename = Inr img"
  shows "read_anymap_reference_file env filename mode =
     (if mode = none \<and> component_count img = 3 then
        (case triplet_to_planar (image_data img) (ucast (width img)) (ucast (height img))
                (bits_per_sample img) of
           None \<Rightarrow> (Inl Undefined_behaviour, [Anymap_read filename])
         | Some planar \<Rightarrow> (Inr (img\<lparr>image_data := planar\<rparr>), [Anymap_read filename]))
      else (Inr img, [Anymap_read filename]))"
  using assms
  by (simp add: read_anymap_reference_file_def call_def done_with_def split: option.splits)

lemma planar_example:
  "triplet_to_planar [1, 2, 3, 4, 5, 6] 1 2 8 = Some [1, 4, 2, 5, 3, 6]"
  by (simp add: triplet_to_planar_def planar_loop.simps copy_sample_def read_at_def write_at_def)

text \<open>
  Claim C7. When the reference file loads, \<^verbatim>\<open>read_anymap_reference_file\<close> applies
  \<^verbatim>\<open>triplet_to_planar\<close> to the image data exactly when the mode is \<open>none\<close> and the
  component count is 3, and keeps width, height, bit depth and component count; in
  every other case (another mode, or another component count such as 1) it
  returns the loaded file unchanged.
\<close>

theorem read_anymap_reference_file_transform:
  assumes "anymap_file env filename = Inr img"
  shows "read_anymap_reference_file env filename mode =
     (if mode = none \<and> component_count img = 3 then
        (case triplet_to_planar (image_data img) (ucast (width img)) (ucast (height img))
                (bits_per_sample img) of
           None \<Rightarrow> (Inl Undefined_behaviour, [Anymap_read filename])
         | Some planar \<Rightarrow> (Inr (img\<lparr>image_data := planar\<rparr>), [Anymap_read filename]))
      else (Inr img, [Anymap_read filename]))"
  using assms by (rule read_anymap_reference_file_result)

theorem read_anymap_reference_file_transform_witness:
  "anymap_file (example_environment (\<lambda>encoded. (encoded, 0))) ''images/a.ppm'' = Inr example_image \<and>
   read_anymap_reference_file (example_environment (\<lambda>encoded. (encoded, 0))) ''images/a.ppm'' none
     = (Inr (example_image\<lparr>image_data := [1, 4, 2, 5, 3, 6]\<rparr>), [Anymap_read ''images/a.ppm'']) \<and>
   read_anymap_reference_file (example_environment (\<lambda>encoded. (encoded, 0))) ''images/a.ppm'' line
     = (Inr example_image, [Anymap_read ''images/a.ppm''])"
proof -
  let ?env = "example_environment (\<lambda>encoded. (encoded, 0))"
  have loaded: "anymap_file ?env ''images/a.ppm'' = Inr example_image"
    by (simp add: example_environment_def)
  show ?thesis
    using loaded
      read_anymap_reference_file_transform [OF loaded, of none]
      read_anymap_reference_file_transform [OF loaded, of line]
    by (simp add: example_image_def planar_example modes_distinct modes_distinct [symmetric])
qed

section \<open>The single-mode test runner\<close>

text \<open>
  Claim C1, as the code has it. \<^verbatim>\<open>check_file\<close> hands to the validator the buffer that it
  gave to the encoder: the output of \<^verbatim>\<open>triplet_to_planar\<close> for a 3-component image in
  mode \<open>none\<close>, the buffer as loaded in every other case. When every step up to the
  decoder succeeds, the test passes exactly when the decoded buffer has the size of
  that buffer and, for near-lossless 0, its bytes.
\<close>

theorem check_file_ground_truth:
  assumes "anymap_file env source_filename = Inr img"
    and "mode = none \<and> component_count img = 3 \<longrightarrow>
      triplet_to_planar (image_data img) (ucast (width img)) (ucast (height img))
        (bits_per_sample img) = Some reference"
    and "\<not> (mode = none \<and> component_count img = 3) \<longrightarrow> reference = image_data img"
    and "encode env
        (Frame_info (width img) (height img) (bits_per_sample img) (component_count img))
        mode reference = Inr (destination, encoded_size)"
    and "generate_output_filename source_filename mode = Inr output_filename"
    and "write_file env output_filename (resize destination encoded_size) = None"
    and "decode env (resize destination encoded_size) = Inr (decoded, near_lossless)"
    and "length decoded < 2 ^ 64" and "length reference < 2 ^ 64"
  shows "fst (check_file env source_filename mode color)
     = Inr (length decoded = length reference \<and> (near_lossless = 0 \<longrightarrow> decoded = reference))"
proof -
  let ?ref = "img\<lparr>image_data := reference\<rparr>"
  have rd: "read_anymap_reference_file env source_filename mode
      = (Inr ?ref, [Anymap_read source_filename])"
    using assms(2,3) by (auto simp: read_anymap_reference_file_result [OF assms(1)])
  obtain mode_name where mn: "interleave_mode_to_string mode = Inr mode_name"
    using assms(5) by (auto simp: generate_output_filename_def split: sum.splits)
  have "fst (test_by_decoding env (resize destination encoded_size) reference)
      = Inr (length decoded = length reference \<and> (near_lossless = 0 \<longrightarrow> decoded = reference))"
    unfolding test_by_decoding_result [OF assms(7,8,9)] by simp
  then obtain es where test: "test_by_decoding env (resize destination encoded_size) reference
      = (Inr (length decoded = length reference \<and> (near_lossless = 0 \<longrightarrow> decoded = reference)), es)"
    by (cases "test_by_decoding env (resize destination encoded_size) reference") simp
  show ?thesis
    using assms(4,6)
    by (simp add: check_file_def rd call_def assms(5) mn test emit_def done_with_def Let_def)
qed

theorem check_file_ground_truth_witness:
  "anymap_file (example_environment (\<lambda>encoded. (encoded, 0))) ''images/a.ppm'' = Inr example_image \<and>
   triplet_to_planar (image_data example_image) (ucast (width example_image))
     (ucast (height example_image)) (bits_per_sample example_image) = Some [1, 4, 2, 5, 3, 6] \<and>
   decode (example_environment (\<lambda>encoded. (encoded, 0))) (resize [1, 4, 2, 5, 3, 6] 6)
     = Inr ([1, 4, 2, 5, 3, 6], 0) \<and>
   fst (check_file (example_environment (\<lambda>encoded. (encoded, 0))) ''images/a.ppm'' none True)
     = Inr True"
proof -
  let ?env = "example_environment (\<lambda>encoded. (encoded, 0))"
  have loaded: "anymap_file ?env ''images/a.ppm'' = Inr example_image"
    by code_simp
  have transformed: "triplet_to_planar (image_data example_image) (ucast (width example_image))
      (ucast (height example_image)) (bits_per_sample example_image) = Some [1, 4, 2, 5, 3, 6]"
    by code_simp
  then have planar: "none = none \<and> component_count example_image = 3 \<longrightarrow>
      triplet_to_planar (image_data example_image) (ucast (width example_image))
        (ucast (height example_image)) (bits_per_sample example_image) = Some [1, 4, 2, 5, 3, 6]"
    by simp
  have other: "\<not> (none = none \<and> component_count example_image = 3) \<longrightarrow>
      [1, 4, 2, 5, 3, 6] = image_data example_image"
    by (simp add: example_image_def)
  have encoded: "encode ?env
      (Frame_info (width example_image) (height example_image) (bits_per_sample example_image)
         (component_count example_image))
      none [1, 4, 2, 5, 3, 6] = Inr ([1, 4, 2, 5, 3, 6], 6)"
    by code_simp
  have name: "generate_output_filename ''images/a.ppm'' none = Inr ''images/a-none.jls''"
    by code_simp
  have written: "write_file ?env ''images/a-none.jls'' (resize [1, 4, 2, 5, 3, 6] 6) = None"
    by code_simp
  have decoded: "decode ?env (resize [1, 4, 2, 5, 3, 6] 6) = Inr ([1, 4, 2, 5, 3, 6], 0)"
    by code_simp
  have small: "length [1, 4, 2, 5, 3, 6 :: byte] < 2 ^ 64"
    by simp
  show ?thesis
    using loaded transformed decoded
      check_file_ground_truth [OF loaded planar other encoded name written decoded small small,
        of True]
    by simp
qed

text \<open>
  Claim C1, as stated, fails. The example image is tested in mode \<open>none\<close> with a
  decoder that returns, in lossless mode, the buffer as it was loaded from the
  file. The validator on the loaded buffer passes, but \<^verbatim>\<open>check_file\<close> fails with the
  value message: it validated against the planar buffer \<open>[1, 4, 2, 5, 3, 6]\<close>, which
  is also what it gave to the encoder.
\<close>

theorem check_file_original_counterexample:
  "anymap_file (example_environment (\<lambda>encoded. ([1, 2, 3, 4, 5, 6], 0))) ''images/a.ppm''
     = Inr example_image \<and>
   image_data example_image = [1, 2, 3, 4, 5, 6] \<and>
   test_by_decoding (example_environment (\<lambda>encoded. ([1, 2, 3, 4, 5, 6], 0)))
       [1, 4, 2, 5, 3, 6] (image_data example_image)
     = (Inr True, [Decoder_call [1, 4, 2, 5, 3, 6]]) \<and>
   check_file (example_environment (\<lambda>encoded. ([1, 2, 3, 4, 5, 6], 0))) ''images/a.ppm'' none True
     = (Inr False,
        [Anymap_read ''images/a.ppm'',
         Encoder_call (Frame_info 1 2 8 3) none [1, 4, 2, 5, 3, 6],
         File_write ''images/a-none.jls'' [1, 4, 2, 5, 3, 6],
         Decoder_call [1, 4, 2, 5, 3, 6],
         Puts ''Pixel data value doesn't match'',
         Info_line 6 6 ''none'' 6])"
  by code_simp

section \<open>The multi-mode test runner\<close>

lemma snd_then_do:
  "snd (then_do m f) = snd m @ (case fst m of Inl e \<Rightarrow> [] | Inr x \<Rightarrow> snd (f x))"
  by (cases m) (simp add: then_do_def split: sum.splits prod.splits)

lemma encoder_modes_append: "encoder_modes (es @ es') = encoder_modes es @ encoder_modes es'"
  by (induction es rule: encoder_modes.induct) simp_all

lemma encoder_modes_compare_loop: "encoder_modes (snd (compare_loop i decoded original)) = []"
proof (induction i decoded original rule: compare_loop.induct)
  case (1 i decoded original)
  then show ?case
    by (subst compare_loop.simps)
      (simp add: snd_then_do emit_def done_with_def split: option.splits)
qed

lemma encoder_modes_test_by_decoding:
  "encoder_modes (snd (test_by_decoding env encoded original)) = []"
  by (simp add: test_by_decoding_def snd_then_do encoder_modes_append call_def emit_def
      done_with_def encoder_modes_compare_loop split: sum.splits prod.splits)

lemma encoder_modes_read: "encoder_modes (snd (read_anymap_reference_file env f m)) = []"
  by (simp add: read_anymap_reference_file_def snd_then_do encoder_modes_append call_def
      done_with_def split: sum.splits option.splits)

lemma encoder_modes_check_file:
  "set (encoder_modes (snd (check_file env f m color))) \<subseteq> {m}"
  by (simp add: check_file_def snd_then_do encoder_modes_append call_def emit_def
      done_with_def encoder_modes_test_by_decoding encoder_modes_read Let_def
      split: sum.splits prod.splits option.splits)

lemma check_color_file_unfold:
  "check_color_file env f =
     (case check_file env f none True of
        (Inr True, es0) \<Rightarrow>
          (case check_file env f line True of
             (Inr True, es1) \<Rightarrow>
               (case check_file env f sample True of (r, es2) \<Rightarrow> (r, es0 @ es1 @ es2))
           | (r, es1) \<Rightarrow> (r, es0 @ es1))
      | (r, es0) \<Rightarrow> (r, es0))"
  by (simp add: check_color_file_def then_do_def done_with_def
      split: prod.splits sum.splits bool.splits)

text \<open>
  Claim C6. \<^verbatim>\<open>check_color_file\<close> runs \<^verbatim>\<open>check_file\<close> in mode \<open>none\<close>; if that does not
  pass (it fails or is stopped by a fault) its outcome is the outcome and nothing
  more happens. Else it runs mode \<open>line\<close>, and if that does not pass, the outcome
  is that of mode \<open>line\<close> after the events of both runs. Else it runs mode \<open>sample\<close>
  and returns its outcome after the events of the three runs, in this order.
  The encoder is never invoked in mode \<open>line\<close> when mode \<open>none\<close> did not pass, nor in
  mode \<open>sample\<close> when mode \<open>none\<close> or mode \<open>line\<close> did not pass.
\<close>

theorem check_color_file_short_circuit:
  "(fst (check_file env f none True) \<noteq> Inr True \<longrightarrow>
      check_color_file env f = check_file env f none True) \<and>
   (fst (check_file env f none True) = Inr True \<and> fst (check_file env f line True) \<noteq> Inr True \<longrightarrow>
      check_color_file env f
        = (fst (check_file env f line True),
           snd (check_file env f none True) @ snd (check_file env f line True))) \<and>
   (fst (check_file env f none True) = Inr True \<and> fst (check_file env f line True) = Inr True \<longrightarrow>
      check_color_file env f
        = (fst (check_file env f sample True),
           snd (check_file env f none True) @ snd (check_file env f line True)
             @ snd (check_file env f sample True))) \<and>
   (fst (check_file env f none True) \<noteq> Inr True \<longrightarrow>
      line \<notin> set (encoder_modes (snd (check_color_file env f)))) \<and>
   (fst (check_file env f none True) \<noteq> Inr True \<or> fst (check_file env f line True) \<noteq> Inr True \<longrightarrow>
      sample \<notin> set (encoder_modes (snd (check_color_file env f))))"
proof -
  obtain r0 es0 where c0: "check_file env f none True = (r0, es0)"
    by (cases "check_file env f none True")
  obtain r1 es1 where c1: "check_file env f line True = (r1, es1)"
    by (cases "check_file env f line True")
  obtain r2 es2 where c2: "check_file env f sample True = (r2, es2)"
    by (cases "check_file env f sample True")
  have m0: "set (encoder_modes es0) \<subseteq> {none}"
    using encoder_modes_check_file [of env f none True] by (simp add: c0)
  have m1: "set (encoder_modes es1) \<subseteq> {line}"
    using encoder_modes_check_file [of env f line True] by (simp add: c1)
  have first: "check_color_file env f = (r0, es0)" if "r0 \<noteq> Inr True"
    using that by (auto simp: check_color_file_unfold c0 split: sum.splits bool.splits)
  have second: "check_color_file env f = (r1, es0 @ es1)" if "r0 = Inr True" "r1 \<noteq> Inr True"
    using that by (auto simp: check_color_file_unfold c0 c1 split: sum.splits bool.splits)
  have third: "check_color_file env f = (r2, es0 @ es1 @ es2)" if "r0 = Inr True" "r1 = Inr True"
    using that by (simp add: check_color_file_unfold c0 c1 c2)
  have no_line: "line \<notin> set (encoder_modes (snd (check_color_file env f)))" if "r0 \<noteq> Inr True"
    using first [OF that] m0 modes_distinct by auto
  have no_sample: "sample \<notin> set (encoder_modes (snd (check_color_file env f)))"
    if "r0 \<noteq> Inr True \<or> r1 \<noteq> Inr True"
  proof (cases "r0 = Inr True")
    case True
    with that have "check_color_file env f = (r1, es0 @ es1)"
      by (intro second) simp_all
    then show ?thesis
      using m0 m1 modes_distinct by (auto simp: encoder_modes_append)
  next
    case False
    then show ?thesis
      using first m0 modes_distinct by auto
  qed
  show ?thesis
    using first second third no_line no_sample by (simp add: c0 c1 c2)
qed

theorem check_color_file_short_circuit_witness:
  "fst (check_file (example_environment line_rejecting_decoder) ''images/a.ppm'' none True) = Inr True \<and>
   fst (check_file (example_environment line_rejecting_decoder) ''images/a.ppm'' line True) \<noteq> Inr True \<and>
   check_color_file (example_environment line_rejecting_decoder) ''images/a.ppm''
     = (Inr False,
        [Anymap_read ''images/a.ppm'',
         Encoder_call (Frame_info 1 2 8 3) none [1, 4, 2, 5, 3, 6],
         File_write ''images/a-none.jls'' [1, 4, 2, 5, 3, 6],
         Decoder_call [1, 4, 2, 5, 3, 6],
         Info_line 6 6 ''none'' 6,
         Anymap_read ''images/a.ppm'',
         Encoder_call (Frame_info 1 2 8 3) line [1, 2, 3, 4, 5, 6],
         File_write ''images/a-line.jls'' [1, 2, 3, 4, 5, 6],
         Decoder_call [1, 2, 3, 4, 5, 6],
         Puts ''Pixel data size doesn't match'',
         Info_line 6 6 ''line'' 6]) \<and>
   sample \<notin> set (encoder_modes
     (snd (check_color_file (example_environment line_rejecting_decoder) ''images/a.ppm'')))"
proof -
  let ?env = "example_environment line_rejecting_decoder"
  have planar: "check_file ?env ''images/a.ppm'' none True
      = (Inr True,
         [Anymap_read ''images/a.ppm'',
          Encoder_call (Frame_info 1 2 8 3) none [1, 4, 2, 5, 3, 6],
          File_write ''images/a-none.jls'' [1, 4, 2, 5, 3, 6],
          Decoder_call [1, 4, 2, 5, 3, 6],
          Info_line 6 6 ''none'' 6])"
    by code_simp
  have by_line: "check_file ?env ''images/a.ppm'' line True
      = (Inr False,
         [Anymap_read ''images/a.ppm'',
          Encoder_call (Frame_info 1 2 8 3) line [1, 2, 3, 4, 5, 6],
          File_write ''images/a-line.jls'' [1, 2, 3, 4, 5, 6],
          Decoder_call [1, 2, 3, 4, 5, 6],
          Puts ''Pixel data size doesn't match'',
          Info_line 6 6 ''line'' 6])"
    by code_simp
  show ?thesis
    using check_color_file_short_circuit [of ?env "''images/a.ppm''"]
    by (simp add: planar by_line modes_distinct [symmetric])
qed

section \<open>The output file name\<close>

text \<open>
  For a source file whose stem has no period after its first character, the
  generated name is the directory of the source, its stem, a hyphen, the mode name
  and \<open>.jls\<close>.
\<close>

lemma takeWhile_dropWhile_same: "takeWhile P (dropWhile P xs) = []"
  by (induction xs) simp_all

lemma path_filename_remove_filename: "path_filename (remove_filename p) = []"
  by (simp add: path_filename_def remove_filename_def takeWhile_dropWhile_same)

lemma no_separator_in_filename: "CHR ''/'' \<notin> set (path_filename p)"
proof -
  have "\<forall>c \<in> set (takeWhile (\<lambda>c. c \<noteq> CHR ''/'') (rev p)). c \<noteq> CHR ''/''"
    by (auto dest: set_takeWhileD)
  then show ?thesis
    by (auto simp: path_filename_def)
qed

lemma set_path_stem: "set (path_stem p) \<subseteq> set (path_filename p)"
proof -
  have "set (tl (dropWhile (\<lambda>c. c \<noteq> CHR ''.'') (rev (path_filename p))))
      \<subseteq> set (path_filename p)"
    by (metis list.set_sel(2) set_dropWhileD set_rev subsetI tl_Nil)
  then show ?thesis
    by (auto simp: path_stem_def Let_def)
qed

lemma no_separator_in_stem: "CHR ''/'' \<notin> set (path_stem p)"
  using set_path_stem [of p] no_separator_in_filename [of p] by auto

lemma path_filename_after_directory:
  assumes "path_filename d = []" "CHR ''/'' \<notin> set r"
  shows "path_filename (d @ r) = r"
proof -
  have "takeWhile (\<lambda>c. c \<noteq> CHR ''/'') (rev r @ rev d)
      = rev r @ takeWhile (\<lambda>c. c \<noteq> CHR ''/'') (rev d)"
    using assms(2) by (intro takeWhile_append2) auto
  then show ?thesis
    using assms(1) by (simp add: path_filename_def)
qed

lemma no_later_period:
  assumes "CHR ''.'' \<notin> set (tl s)" "CHR ''.'' \<notin> set t"
  shows "tl (dropWhile (\<lambda>c. c \<noteq> CHR ''.'') (rev (s @ t))) = []"
proof (cases s)
  case Nil
  from assms(2) have "dropWhile (\<lambda>c. c \<noteq> CHR ''.'') (rev t) = []"
    by (auto simp: dropWhile_eq_Nil_conv)
  with Nil show ?thesis
    by (simp del: dropWhile_eq_Nil_conv)
next
  case (Cons c s')
  with assms have "\<forall>x \<in> set (rev t @ rev s'). x \<noteq> CHR ''.''"
    by auto
  then have "dropWhile (\<lambda>c. c \<noteq> CHR ''.'') ((rev t @ rev s') @ [c])
      = dropWhile (\<lambda>c. c \<noteq> CHR ''.'') [c]"
    by (intro dropWhile_append2) auto
  then show ?thesis
    using Cons by simp
qed

lemma path_stem_without_extension:
  assumes "tl (dropWhile (\<lambda>c. c \<noteq> CHR ''.'') (rev (path_filename p))) = []"
  shows "path_stem p = path_filename p"
  using assms by (simp add: path_stem_def Let_def)

lemma generate_output_filename_plain_stem:
  assumes "interleave_mode_to_string m = Inr mode_name"
    and "CHR ''.'' \<notin> set (tl (path_stem f))"
  shows "generate_output_filename f m
     = Inr (remove_filename f @ path_stem f @ ''-'' @ mode_name @ ''.jls'')"
proof -
  let ?d = "remove_filename f"
  let ?r = "path_stem f @ ''-'' @ mode_name"
  from assms(1) have name: "mode_name = ''none'' \<or> mode_name = ''line'' \<or> mode_name = ''sample''"
    by (auto simp: interleave_mode_to_string_def split: if_splits)
  then have plain: "CHR ''/'' \<notin> set ?r" "CHR ''.'' \<notin> set (''-'' @ mode_name)"
    using no_separator_in_stem [of f] by auto
  have "?r \<noteq> []"
    by simp
  moreover have "hd ?r \<noteq> CHR ''/''"
    using plain(1) by (cases "path_stem f") auto
  ultimately have replaced: "replace_filename f ?r = ?d @ ?r"
    by (simp add: replace_filename_def path_append_def path_filename_remove_filename)
  have filename: "path_filename (?d @ ?r) = ?r"
    using path_filename_remove_filename plain(1) by (rule path_filename_after_directory)
  have "tl (dropWhile (\<lambda>c. c \<noteq> CHR ''.'') (rev (path_stem f @ (''-'' @ mode_name)))) = []"
    using assms(2) plain(2) by (rule no_later_period)
  then have "tl (dropWhile (\<lambda>c. c \<noteq> CHR ''.'') (rev (path_filename (?d @ ?r)))) = []"
    by (simp only: filename)
  then have "path_stem (?d @ ?r) = path_filename (?d @ ?r)"
    by (rule path_stem_without_extension)
  then have "path_extension (?d @ ?r) = []"
    by (simp add: path_extension_def)
  then have "replace_extension (?d @ ?r) ''.jls'' = ?d @ ?r @ ''.jls''"
    by (simp add: replace_extension_def)
  then show ?thesis
    using assms(1) replaced by (simp add: generate_output_filename_def)
qed

text \<open>
  Claim C8, at an input where the code departs from it. The stem of
  \<open>images/a.b.ppm\<close> is \<open>a.b\<close>, so the bitstream of mode \<open>none\<close> should go to
  \<open>images/a.b-none.jls\<close>. \<^verbatim>\<open>generate_output_filename\<close> first replaces the filename by
  \<open>a.b-none\<close>; \<^verbatim>\<open>replace_extension\<close> then takes \<open>.b-none\<close> for the extension of that
  name and replaces it: the result is \<open>images/a.jls\<close>, the same for the three
  modes, and it is the name \<^verbatim>\<open>check_file\<close> writes to.
\<close>

theorem generate_output_filename_dotted_stem:
  "path_stem ''images/a.b.ppm'' = ''a.b'' \<and>
   generate_output_filename ''images/a.b.ppm'' none = Inr ''images/a.jls'' \<and>
   generate_output_filename ''images/a.b.ppm'' line = Inr ''images/a.jls'' \<and>
   generate_output_filename ''images/a.b.ppm'' sample = Inr ''images/a.jls'' \<and>
   check_file (example_environment (\<lambda>encoded. (encoded, 0))) ''images/a.b.ppm'' none True
     = (Inr True,
        [Anymap_read ''images/a.b.ppm'',
         Encoder_call (Frame_info 1 2 8 3) none [1, 4, 2, 5, 3, 6],
         File_write ''images/a.jls'' [1, 4, 2, 5, 3, 6],
         Decoder_call [1, 4, 2, 5, 3, 6],
         Info_line 6 6 ''none'' 6])"
  by code_simp

section \<open>The command line\<close>

text \<open>
  Claim C9. Started with fewer than two entries in \<open>argv\<close> (no positional argument),
  \<^verbatim>\<open>main\<close> prints the usage line with \<^verbatim>\<open>puts\<close>, which writes to standard output, and
  returns \<^verbatim>\<open>EXIT_FAILURE\<close>, which is not zero. The usage line is the only event of
  the run: no directory is scanned, no file is read, encoded, written or decoded.
\<close>

theorem main_usage:
  assumes "length argv < 2"
  shows "main env argv
      = (Inr EXIT_FAILURE, [Puts ''usage: charls_image_tester <directory-to-test>'']) \<and>
     EXIT_FAILURE \<noteq> 0"
  using assms by (simp add: main_def emit_def done_with_def EXIT_FAILURE_def)

theorem main_usage_witness:
  "length [''charls_image_tester''] < 2 \<and>
   main (example_environment (\<lambda>encoded. (encoded, 0))) [''charls_image_tester'']
     = (Inr 1, [Puts ''usage: charls_image_tester <directory-to-test>''])"
  using main_usage [of "[''charls_image_tester'']" "example_environment (\<lambda>encoded. (encoded, 0))"]
  by (simp add: EXIT_FAILURE_def)

section \<open>The mode names\<close>

text \<open>
  Claim C10. For each of the three enumerators \<open>none\<close>, \<open>line\<close> and \<open>sample\<close>,
  \<^verbatim>\<open>interleave_mode_to_string\<close> returns the name of the enumerator, which is not
  empty; it does not reach the code after the switch, that is, neither the failed
  assertion nor the empty string.
\<close>

theorem interleave_mode_to_string_valid:
  assumes "m = none \<or> m = line \<or> m = sample"
  shows "interleave_mode_to_string m
       = Inr (if m = none then ''none'' else if m = line then ''line'' else ''sample'') \<and>
     interleave_mode_to_string m \<noteq> Inl Assertion_failed \<and>
     interleave_mode_to_string m \<noteq> Inr ''''"
  using assms by (auto simp: interleave_mode_to_string_cases modes_distinct)

theorem interleave_mode_to_string_valid_witness:
  "(sample = none \<or> sample = line \<or> sample = sample) \<and>
   interleave_mode_to_string sample = Inr ''sample'' \<and>
   interleave_mode_to_string sample \<noteq> Inl Assertion_failed \<and>
   interleave_mode_to_string sample \<noteq> Inr ''''"
  using interleave_mode_to_string_valid [of sample]
  by (simp add: modes_distinct modes_distinct [symmetric])

end
